theory Spec2Isabelle
  imports Main "HOL-Library.Sublist" "HOL-Library.AList"
begin

section \<open>Text: Python strings over the code points below 256\<close>

text \<open>
  A Python \<open>str\<close> is a sequence of code points. The model is \<^typ>\<open>string\<close>, whose
  characters are the code points 0 to 255. The two character classes below are the
  ones CPython uses for \<open>str.strip\<close>, \<open>str.isspace\<close> and the regular expression
  classes \<open>\s\<close> and \<open>\w\<close> of a \<open>str\<close> pattern, restricted to that range.
\<close>

definition newline :: char where
  "newline = CHR 0x0A"

definition is_space :: "char \<Rightarrow> bool" where
  "is_space c =
     (let n = (of_char c :: nat)
      in (9 \<le> n \<and> n \<le> 13) \<or> (28 \<le> n \<and> n \<le> 32) \<or> n = 133 \<or> n = 160)"

definition is_word :: "char \<Rightarrow> bool" where
  "is_word c =
     (let n = (of_char c :: nat)
      in (48 \<le> n \<and> n \<le> 57) \<or> (65 \<le> n \<and> n \<le> 90) \<or> n = 95 \<or> (97 \<le> n \<and> n \<le> 122)
         \<or> n = 170 \<or> n = 178 \<or> n = 179 \<or> n = 181 \<or> n = 185 \<or> n = 186
         \<or> (188 \<le> n \<and> n \<le> 190) \<or> (192 \<le> n \<and> n \<le> 214)
         \<or> (216 \<le> n \<and> n \<le> 246) \<or> (248 \<le> n \<and> n \<le> 255))"

text \<open>\<open>s.lstrip()\<close>, \<open>s.rstrip()\<close> and \<open>s.strip()\<close>.\<close>

definition lstrip :: "string \<Rightarrow> string" where
  "lstrip s = dropWhile is_space s"

definition rstrip :: "string \<Rightarrow> string" where
  "rstrip s = rev (dropWhile is_space (rev s))"

definition strip :: "string \<Rightarrow> string" where
  "strip s = rstrip (lstrip s)"

text \<open>
  \<open>s.split('\n')\<close>: the pieces between the newlines, in order. The result is never
  empty (a string without a newline is its own single piece), so the second case of
  the \<open>case\<close> below does not arise.
\<close>

fun split_nl :: "string \<Rightarrow> string list" where
  "split_nl [] = [[]]"
| "split_nl (c # cs) =
     (if c = newline then [] # split_nl cs
      else (case split_nl cs of l # ls \<Rightarrow> (c # l) # ls | [] \<Rightarrow> [[c]]))"

text \<open>\<open>'\n'.join(lines)\<close>.\<close>

fun join_nl :: "string list \<Rightarrow> string" where
  "join_nl [] = []"
| "join_nl [l] = l"
| "join_nl (l # m # ls) = l @ newline # join_nl (m # ls)"

section \<open>The pattern of \<open>load_queries\<close>\<close>

text \<open>
  \<^verbatim>\<open>pattern = r'-- Query: (\w+)\s*\n(.*?)(?=-- Query:|$)'\<close>, used with \<open>re.DOTALL\<close>
  and without \<open>re.MULTILINE\<close>.

  The lookahead \<open>(?=-- Query:|$)\<close> holds where the rest of the text starts with
  \<open>-- Query:\<close>, or is empty, or is a single final newline (\<open>$\<close> without
  \<open>re.MULTILINE\<close>).
\<close>

definition lookahead :: "string \<Rightarrow> bool" where
  "lookahead r = (prefix ''-- Query:'' r \<or> r = [] \<or> r = [newline])"

text \<open>
  The lazy group \<open>(.*?)\<close> followed by the lookahead: with \<open>re.DOTALL\<close> the dot takes
  any character, and the group takes as few as possible, so it ends at the first
  position where the lookahead holds. The result is the group and the unconsumed rest.
\<close>

fun lazy_body :: "string \<Rightarrow> string \<times> string" where
  "lazy_body [] = ([], [])"
| "lazy_body (c # cs) =
     (if lookahead (c # cs) then ([], c # cs)
      else (case lazy_body cs of (b, r) \<Rightarrow> (c # b, r)))"

text \<open>
  \<open>\s*\n\<close> on the text \<open>r\<close>: the greedy \<open>\s*\<close> first takes the whole run of whitespace
  and gives characters back until a newline follows, so together they consume the run
  up to and including its last newline, and fail when the run has no newline. The
  result is what is left of the text.
\<close>

fun after_last_newline :: "string \<Rightarrow> string" where
  "after_last_newline [] = []"
| "after_last_newline (c # cs) =
     (if newline \<in> set cs then after_last_newline cs
      else if c = newline then cs else c # cs)"

definition spaces_newline :: "string \<Rightarrow> string option" where
  "spaces_newline r =
     (let ws = takeWhile is_space r
      in if newline \<in> set ws then Some (after_last_newline ws @ dropWhile is_space r)
         else None)"

text \<open>
  One attempt to match the whole pattern at the start of \<open>s\<close>. The greedy \<open>\w+\<close> takes
  the whole run of word characters: a shorter name would leave a word character in
  front of \<open>\s*\n\<close>, which is neither whitespace nor a newline. Once \<open>\s*\n\<close> has
  matched, the lazy group always finds its end (at the latest at the end of the text).
  The result is group 1, group 2 and the text after the match.
\<close>

definition match_here :: "string \<Rightarrow> (string \<times> string \<times> string) option" where
  "match_here s =
     (if prefix ''-- Query: '' s then
        (let r = drop 10 s; name = takeWhile is_word r
         in if name = [] then None
            else (case spaces_newline (dropWhile is_word r) of
                    None \<Rightarrow> None
                  | Some t \<Rightarrow> (case lazy_body t of (body, rest) \<Rightarrow> Some (name, body, rest))))
      else None)"

lemma lazy_body_length: "lazy_body t = (b, r) \<Longrightarrow> length r \<le> length t"
proof (induction t arbitrary: b r)
  case Nil
  then show ?case by simp
next
  case (Cons c cs)
  then show ?case by (auto split: if_splits prod.splits)
qed

lemma after_last_newline_length: "length (after_last_newline ws) \<le> length ws"
  by (induction ws) auto

lemma spaces_newline_length: "spaces_newline r = Some t \<Longrightarrow> length t \<le> length r"
proof -
  assume a: "spaces_newline r = Some t"
  have "length (after_last_newline (takeWhile is_space r)) \<le> length (takeWhile is_space r)"
    by (rule after_last_newline_length)
  moreover have "length (takeWhile is_space r) + length (dropWhile is_space r) = length r"
    by (metis length_append takeWhile_dropWhile_id)
  ultimately show ?thesis
    using a by (auto simp: spaces_newline_def Let_def split: if_splits)
qed

lemma match_here_shorter:
  assumes "match_here s = Some (name, body, rest)"
  shows "length rest < length s"
proof -
  from assms have p: "prefix ''-- Query: '' s"
    by (auto simp: match_here_def split: if_splits)
  then have len: "10 \<le> length s"
    by (auto simp: prefix_def)
  from assms p obtain t where
    t: "spaces_newline (dropWhile is_word (drop 10 s)) = Some t" and
    b: "lazy_body t = (body, rest)"
    by (auto simp: match_here_def Let_def split: if_splits option.splits prod.splits)
  have "length rest \<le> length t"
    using b by (rule lazy_body_length)
  also have "\<dots> \<le> length (dropWhile is_word (drop 10 s))"
    using t by (rule spaces_newline_length)
  also have "\<dots> \<le> length (drop 10 s)"
    by (rule length_dropWhile_le)
  also have "\<dots> < length s"
    using len by simp
  finally show ?thesis .
qed

text \<open>
  \<open>re.findall(pattern, content, re.DOTALL)\<close>: the scan tries the pattern at each
  position from left to right; after a match it goes on where the match ended (a
  match of this pattern is never empty), after a failure at the next character. With
  two groups, the result is the list of the pairs (group 1, group 2).
\<close>

function findall :: "string \<Rightarrow> (string \<times> string) list" where
  "findall [] = []"
| "findall (c # cs) =
     (case match_here (c # cs) of
        None \<Rightarrow> findall cs
      | Some (name, body, rest) \<Rightarrow> (name, body) # findall rest)"
  by pat_completeness auto
termination
proof (relation "measure length")
  show "wf (measure length)" by simp
next
  fix c cs
  assume "match_here (c # cs) = None"
  show "(cs, c # cs) \<in> measure length" by simp
next
  fix c :: char and cs x2 x y xa ya
  assume "match_here (c # cs) = Some x2" "(x, y) = x2" "(xa, ya) = y"
  then have "match_here (c # cs) = Some (x, xa, ya)" by simp
  then have "length ya < length (c # cs)" by (rule match_here_shorter)
  then show "(ya, c # cs) \<in> measure length" by simp
qed

section \<open>\<open>load_queries\<close>\<close>

text \<open>
  The body of the outer loop up to the assignment of \<open>query\<close>: the lines of the
  stripped block whose stripped text is neither empty nor starts with \<open>--\<close>,
  joined with newlines, and stripped.
\<close>

definition keep_line :: "string \<Rightarrow> bool" where
  "keep_line line = (let stripped = strip line in stripped \<noteq> [] \<and> \<not> prefix ''--'' stripped)"

definition clean :: "string \<Rightarrow> string" where
  "clean query_block = strip (join_nl (filter keep_line (split_nl (strip query_block))))"

text \<open>The guard \<open>if query and query != 'pass'\<close>.\<close>

definition usable :: "string \<Rightarrow> bool" where
  "usable query = (query \<noteq> [] \<and> query \<noteq> ''pass'')"

text \<open>
  The dictionary \<open>queries\<close> is an association list in insertion order with distinct
  keys: \<open>queries[name] = query\<close> is \<^const>\<open>AList.update\<close>, which replaces the value
  of a key already present where it stands and appends a new key at the end, as a
  Python \<open>dict\<close> does. \<open>queries.get(name)\<close> is \<^const>\<open>map_of\<close>.
\<close>

type_synonym queries = "(string \<times> string) list"

fun store_blocks :: "(string \<times> string) list \<Rightarrow> queries \<Rightarrow> queries" where
  "store_blocks [] queries = queries"
| "store_blocks ((name, query_block) # matches) queries =
     (let query = clean query_block
      in store_blocks matches
           (if usable query then AList.update name query queries else queries))"

text \<open>The parsing step of \<open>load_queries\<close>, from the text of the file to the dictionary.\<close>

definition parse_queries :: "string \<Rightarrow> queries" where
  "parse_queries content = store_blocks (findall content) []"

datatype error =
    FileNotFoundError string
  | AssertionError string
  | OperationalError string
  | IntegrityError string
  | ProgrammingError string
  | ValueError string

text \<open>
  The files that can be read, by path, and \<open>Path.read_text\<close>, which raises
  \<open>FileNotFoundError\<close> for a path without a file.
\<close>

type_synonym files = "string \<rightharpoonup> string"

definition read_text :: "files \<Rightarrow> string \<Rightarrow> error + string" where
  "read_text fs path =
     (case fs path of None \<Rightarrow> Inl (FileNotFoundError path) | Some content \<Rightarrow> Inr content)"

text \<open>
  \<open>load_queries()\<close>. Its two inputs from the environment are explicit: the files and
  the path \<open>sql_file\<close> of \<open>exercise.sql\<close> beside the test module.
\<close>

definition load_queries :: "files \<Rightarrow> string \<Rightarrow> error + queries" where
  "load_queries fs sql_file =
     (case read_text fs sql_file of
        Inl e \<Rightarrow> Inl e
      | Inr content \<Rightarrow> Inr (parse_queries content))"

text \<open>
  The same function with the dictionary as the object it is. The dictionaries of the
  process are a store, a list of dictionaries by address. \<open>queries = {}\<close> makes a
  new, empty dictionary at the next free address; \<open>queries[name] = query\<close> changes
  the dictionary at that address in place; \<open>return queries\<close> returns the address.
  The result is the address (or the exception) and the store the call leaves.
\<close>

type_synonym store = "queries list"

fun store_blocks_at :: "nat \<Rightarrow> (string \<times> string) list \<Rightarrow> store \<Rightarrow> store" where
  "store_blocks_at ref [] h = h"
| "store_blocks_at ref ((name, query_block) # matches) h =
     (let query = clean query_block
      in store_blocks_at ref matches
           (if usable query then h[ref := AList.update name query (h ! ref)] else h))"

definition load_queries_at :: "files \<Rightarrow> string \<Rightarrow> store \<Rightarrow> (error + nat) \<times> store" where
  "load_queries_at fs sql_file h =
     (case read_text fs sql_file of
        Inl e \<Rightarrow> (Inl e, h)
      | Inr content \<Rightarrow>
          (let queries = length h; h1 = h @ [[]]
           in (Inr queries, store_blocks_at queries (findall content) h1)))"

section \<open>The in-memory database\<close>

text \<open>
  The part of \<open>sqlite3\<close> the fixture uses. A value is NULL, an integer, a text or a
  decimal literal (\<open>SqlReal m k\<close> stands for \<open>m / 10 ^ k\<close>, as written in the
  source; its rounding to a float is not modelled). A table has its column
  declarations and its rows in insertion order.
\<close>

datatype sql_value = SqlNull | SqlInteger int | SqlText string | SqlReal int nat

record column =
  col_name :: string
  col_type :: string
  not_null :: bool
  primary_key :: bool
  default_value :: sql_value

type_synonym row = "sql_value list"

record table =
  columns :: "column list"
  rows :: "row list"

type_synonym database = "string \<rightharpoonup> table"

text \<open>
  The two forms of statement in the scripts of the fixture, already parsed:
  \<open>CREATE TABLE name (columns)\<close> and \<open>INSERT INTO name (columns) VALUES rows\<close>.
  The script \<open>SCHEMA\<close> is one statement of the first form, with the columns
  \<open>products_columns\<close>; \<open>SAMPLE_DATA\<close> is one of the second, with the rows
  \<open>sample_rows\<close>.
\<close>

datatype statement =
    CreateTable string "column list"
  | InsertInto string "string list" "row list"

definition products_columns :: "column list" where
  "products_columns =
     [\<lparr>col_name = ''id'', col_type = ''INTEGER'', not_null = False, primary_key = True,
        default_value = SqlNull\<rparr>,
      \<lparr>col_name = ''name'', col_type = ''TEXT'', not_null = True, primary_key = False,
        default_value = SqlNull\<rparr>,
      \<lparr>col_name = ''category'', col_type = ''TEXT'', not_null = True, primary_key = False,
        default_value = SqlNull\<rparr>,
      \<lparr>col_name = ''price'', col_type = ''REAL'', not_null = True, primary_key = False,
        default_value = SqlNull\<rparr>,
      \<lparr>col_name = ''quantity'', col_type = ''INTEGER'', not_null = True, primary_key = False,
        default_value = SqlNull\<rparr>,
      \<lparr>col_name = ''is_active'', col_type = ''INTEGER'', not_null = False, primary_key = False,
        default_value = SqlInteger 1\<rparr>]"

definition SCHEMA :: "statement list" where
  "SCHEMA = [CreateTable ''products'' products_columns]"

definition sample_rows :: "row list" where
  "sample_rows =
     [[SqlInteger 1, SqlText ''Laptop'', SqlText ''Electronics'', SqlReal 99999 2,
         SqlInteger 50, SqlInteger 1],
      [SqlInteger 2, SqlText ''Mouse'', SqlText ''Electronics'', SqlReal 2999 2,
         SqlInteger 200, SqlInteger 1],
      [SqlInteger 3, SqlText ''Keyboard'', SqlText ''Electronics'', SqlReal 7999 2,
         SqlInteger 150, SqlInteger 1],
      [SqlInteger 4, SqlText ''Desk Chair'', SqlText ''Furniture'', SqlReal 29999 2,
         SqlInteger 30, SqlInteger 1],
      [SqlInteger 5, SqlText ''Standing Desk'', SqlText ''Furniture'', SqlReal 59999 2,
         SqlInteger 20, SqlInteger 0],
      [SqlInteger 6, SqlText ''Monitor'', SqlText ''Electronics'', SqlReal 39999 2,
         SqlInteger 75, SqlInteger 1],
      [SqlInteger 7, SqlText ''Webcam'', SqlText ''Electronics'', SqlReal 8999 2,
         SqlInteger 100, SqlInteger 1],
      [SqlInteger 8, SqlText ''Bookshelf'', SqlText ''Furniture'', SqlReal 14999 2,
         SqlInteger 40, SqlInteger 1]]"

definition SAMPLE_DATA :: "statement list" where
  "SAMPLE_DATA =
     [InsertInto ''products''
        [''id'', ''name'', ''category'', ''price'', ''quantity'', ''is_active'']
        sample_rows]"

text \<open>
  Inserting one row. The row gets the value given for each named column and the
  default of every other column; a NULL in an \<open>INTEGER PRIMARY KEY\<close> column is
  replaced by one more than the largest key of the table. The insertion fails on an
  unknown column, on a wrong number of values, on a NULL in a \<open>NOT NULL\<close> column
  and on a primary key that a row of the table already has.
\<close>

definition make_row :: "column list \<Rightarrow> string list \<Rightarrow> row \<Rightarrow> row" where
  "make_row cols names vals =
     map (\<lambda>col. case map_of (zip names vals) (col_name col) of
                  Some v \<Rightarrow> v
                | None \<Rightarrow> default_value col) cols"

definition key_of :: "column list \<Rightarrow> row \<Rightarrow> row" where
  "key_of cols r = map snd (filter (\<lambda>(col, v). primary_key col) (zip cols r))"

fun rowid_of :: "sql_value \<Rightarrow> int" where
  "rowid_of (SqlInteger i) = i"
| "rowid_of _ = 0"

definition next_rowid :: "table \<Rightarrow> int" where
  "next_rowid t =
     fold max (map rowid_of (concat (map (key_of (columns t)) (rows t)))) 0 + 1"

definition fill_rowid :: "table \<Rightarrow> row \<Rightarrow> row" where
  "fill_rowid t r =
     map (\<lambda>(col, v). if primary_key col \<and> col_type col = ''INTEGER'' \<and> v = SqlNull
                      then SqlInteger (next_rowid t) else v)
         (zip (columns t) r)"

definition insert_row :: "table \<Rightarrow> string list \<Rightarrow> row \<Rightarrow> error + table" where
  "insert_row t names vals =
     (if \<not> list_all (\<lambda>n. n \<in> set (map col_name (columns t))) names then
        Inl (OperationalError ''no such column'')
      else if length vals \<noteq> length names then
        Inl (OperationalError ''wrong number of values'')
      else
        (let r = fill_rowid t (make_row (columns t) names vals)
         in if list_ex (\<lambda>(col, v). not_null col \<and> v = SqlNull) (zip (columns t) r) then
              Inl (IntegrityError ''NOT NULL constraint failed'')
            else if list_ex primary_key (columns t)
                    \<and> key_of (columns t) r \<in> set (map (key_of (columns t)) (rows t)) then
              Inl (IntegrityError ''UNIQUE constraint failed'')
            else Inr (t\<lparr>rows := rows t @ [r]\<rparr>)))"

fun insert_rows :: "table \<Rightarrow> string list \<Rightarrow> row list \<Rightarrow> error + table" where
  "insert_rows t names [] = Inr t"
| "insert_rows t names (vals # others) =
     (case insert_row t names vals of
        Inl e \<Rightarrow> Inl e
      | Inr t' \<Rightarrow> insert_rows t' names others)"

fun exec_statement :: "database \<Rightarrow> statement \<Rightarrow> error + database" where
  "exec_statement db (CreateTable name cols) =
     (case db name of
        Some t \<Rightarrow> Inl (OperationalError ''table already exists'')
      | None \<Rightarrow> Inr (db(name \<mapsto> \<lparr>columns = cols, rows = []\<rparr>)))"
| "exec_statement db (InsertInto name names vals) =
     (case db name of
        None \<Rightarrow> Inl (OperationalError ''no such table'')
      | Some t \<Rightarrow>
          (case insert_rows t names vals of
             Inl e \<Rightarrow> Inl e
           | Inr t' \<Rightarrow> Inr (db(name \<mapsto> t'))))"

text \<open>
  Connections. Each \<open>sqlite3.connect(':memory:')\<close> opens a new, empty database of its
  own; the state of the process is the list of all connections made so far, and a
  connection is known by its position in it. Every operation on a closed connection
  raises \<open>ProgrammingError\<close>, except \<open>close\<close>, which may be repeated. Closing the
  connection discards its database.
\<close>

record connection =
  tables :: database
  closed :: bool

type_synonym world = "connection list"

definition connect :: "world \<Rightarrow> nat \<times> world" where
  "connect w = (length w, w @ [\<lparr>tables = Map.empty, closed = False\<rparr>])"

definition is_open :: "nat \<Rightarrow> world \<Rightarrow> bool" where
  "is_open conn w = (conn < length w \<and> \<not> closed (w ! conn))"

fun executescript :: "nat \<Rightarrow> statement list \<Rightarrow> world \<Rightarrow> (error + unit) \<times> world" where
  "executescript conn [] w =
     (if is_open conn w then (Inr (), w)
      else (Inl (ProgrammingError ''Cannot operate on a closed database.''), w))"
| "executescript conn (st # script) w =
     (if is_open conn w then
        (case exec_statement (tables (w ! conn)) st of
           Inl e \<Rightarrow> (Inl e, w)
         | Inr db \<Rightarrow> executescript conn script (w[conn := (w ! conn)\<lparr>tables := db\<rparr>]))
      else (Inl (ProgrammingError ''Cannot operate on a closed database.''), w))"

definition commit :: "nat \<Rightarrow> world \<Rightarrow> (error + unit) \<times> world" where
  "commit conn w =
     (if is_open conn w then (Inr (), w)
      else (Inl (ProgrammingError ''Cannot operate on a closed database.''), w))"

definition close :: "nat \<Rightarrow> world \<Rightarrow> world" where
  "close conn w =
     (if conn < length w then w[conn := \<lparr>tables = Map.empty, closed = True\<rparr>] else w)"

text \<open>\<open>cursor.execute('SELECT * FROM name')\<close> followed by \<open>cursor.fetchall()\<close>.\<close>

definition select_all :: "nat \<Rightarrow> string \<Rightarrow> world \<Rightarrow> error + row list" where
  "select_all conn name w =
     (if is_open conn w then
        (case tables (w ! conn) name of
           None \<Rightarrow> Inl (OperationalError ''no such table'')
         | Some t \<Rightarrow> Inr (rows t))
      else Inl (ProgrammingError ''Cannot operate on a closed database.''))"

section \<open>The fixture \<open>db\<close> and the test runner\<close>

text \<open>
  The fixture \<open>db\<close> is a generator function: the call makes a generator, the first
  \<open>next\<close> runs it up to \<open>yield conn\<close>, and the second \<open>next\<close> runs \<open>conn.close()\<close> and
  ends it. The result of \<open>next\<close> is the value yielded, or \<open>None\<close> at the end of the
  generator (\<open>StopIteration\<close>), or the exception raised.
  Setting \<open>conn.row_factory\<close> changes only how a row is read, and making a cursor
  changes nothing; neither is in the model.
\<close>

datatype generator = Created | Suspended nat | Exhausted

fun db_next :: "generator \<Rightarrow> world \<Rightarrow> (error + nat option) \<times> generator \<times> world" where
  "db_next Created w =
     (case connect w of (conn, w1) \<Rightarrow>
        (case executescript conn SCHEMA w1 of
           (Inl e, w2) \<Rightarrow> (Inl e, Exhausted, w2)
         | (Inr u, w2) \<Rightarrow>
             (case executescript conn SAMPLE_DATA w2 of
                (Inl e, w3) \<Rightarrow> (Inl e, Exhausted, w3)
              | (Inr u, w3) \<Rightarrow>
                  (case commit conn w3 of
                     (Inl e, w4) \<Rightarrow> (Inl e, Exhausted, w4)
                   | (Inr u, w4) \<Rightarrow> (Inr (Some conn), Suspended conn, w4)))))"
| "db_next (Suspended conn) w = (Inr None, Exhausted, close conn w)"
| "db_next Exhausted w = (Inr None, Exhausted, w)"

text \<open>
  The first two statements of every test:
  \<^verbatim>\<open>query = queries.get('select_all_columns')\<close> and
  \<^verbatim>\<open>assert query, "Query 'select_all_columns' not found or empty"\<close>.
  The assertion fails on \<open>None\<close> and on the empty string.
\<close>

definition not_found_message :: "string \<Rightarrow> string" where
  "not_found_message name = ''Query '' @ [CHR 0x27] @ name @ [CHR 0x27] @ '' not found or empty''"

definition get_query :: "queries \<Rightarrow> string \<Rightarrow> error + string" where
  "get_query queries name =
     (case map_of queries name of
        None \<Rightarrow> Inl (AssertionError (not_found_message name))
      | Some query \<Rightarrow>
          if query = [] then Inl (AssertionError (not_found_message name)) else Inr query)"

text \<open>
  A test of the class \<open>TestSelectBasics\<close> (there are eight, for the blocks
  \<open>select_all_columns\<close>, \<open>select_specific_columns\<close>, \<open>column_alias\<close>,
  \<open>calculated_column\<close>, \<open>order_by_price\<close>, \<open>order_by_multiple\<close>, \<open>limit_results\<close> and
  \<open>distinct_categories\<close>): the two statements above for the block \<open>name\<close> of the test,
  then the rest of the test, which executes the query on the connection and checks
  the rows. The rest is a parameter, since it runs SQL text of the learner. A test
  returns its outcome, \<open>Inl\<close> the exception that ended it, and the state it leaves.
\<close>

type_synonym test = "nat \<Rightarrow> queries \<Rightarrow> world \<Rightarrow> (error + unit) \<times> world"

definition query_test :: "string \<Rightarrow> (string \<Rightarrow> nat \<Rightarrow> world \<Rightarrow> (error + unit) \<times> world) \<Rightarrow> test" where
  "query_test name rest db queries w =
     (case get_query queries name of
        Inl e \<Rightarrow> (Inl e, w)
      | Inr query \<Rightarrow> rest query db w)"

text \<open>
  One test run by pytest with the fixtures \<open>db\<close> and \<open>queries\<close>, in the order of the
  parameters of the test. Setup: the first \<open>next\<close> of \<open>db\<close>, then \<open>load_queries()\<close>;
  an exception in a fixture is the outcome of the test, which is then not called.
  Call: the test; pytest catches its exception and records it as the outcome.
  Teardown: pytest resumes the generator of every fixture that has yielded, whatever
  the outcome, by a plain \<open>next\<close> (the exception of the test is not thrown into it).
\<close>

definition run_test :: "files \<Rightarrow> string \<Rightarrow> test \<Rightarrow> world \<Rightarrow> (error + unit) \<times> world" where
  "run_test fs sql_file t w =
     (case db_next Created w of
        (Inl e, g, w1) \<Rightarrow> (Inl e, w1)
      | (Inr None, g, w1) \<Rightarrow> (Inl (ValueError ''db did not yield a value''), w1)
      | (Inr (Some conn), g, w1) \<Rightarrow>
          (case load_queries fs sql_file of
             Inl e \<Rightarrow> (Inl e, snd (snd (db_next g w1)))
           | Inr queries \<Rightarrow>
               (case t conn queries w1 of
                  (outcome, w2) \<Rightarrow> (outcome, snd (snd (db_next g w2))))))"

section \<open>The character classes\<close>

text \<open>
  No word character is whitespace. This is why the greedy \<open>\w+\<close> of the pattern cannot
  give a character back: after a shorter name, \<open>\s*\n\<close> would meet a word character.
  A newline is whitespace, so the run that \<open>\s*\<close> takes can hold the newline of \<open>\n\<close>.
\<close>

lemma word_not_space: "is_word c \<Longrightarrow> \<not> is_space c"
  by (auto simp: is_word_def is_space_def Let_def)

lemma is_space_newline: "is_space newline"
  by (simp add: is_space_def newline_def)

section \<open>The dictionary built by the loop\<close>

lemma store_blocks_append:
  "store_blocks (xs @ ys) qs = store_blocks ys (store_blocks xs qs)"
  by (induction xs arbitrary: qs) (auto simp: Let_def)

lemma map_of_store_blocks_none:
  "(\<And>b. (n, b) \<in> set ms \<Longrightarrow> \<not> usable (clean b)) \<Longrightarrow>
   map_of (store_blocks ms qs) n = map_of qs n"
proof (induction ms arbitrary: qs)
  case Nil
  then show ?case by simp
next
  case (Cons m ms)
  obtain name b where m: "m = (name, b)" by (cases m)
  have rest: "map_of (store_blocks ms qs') n = map_of qs' n" for qs'
    using Cons.IH Cons.prems by simp
  show ?case
  proof (cases "name = n")
    case True
    with Cons.prems m have "\<not> usable (clean b)" by simp
    then show ?thesis using m rest by (simp add: Let_def)
  next
    case False
    then show ?thesis using m rest by (simp add: Let_def update_conv')
  qed
qed

lemma map_of_store_blocks_last:
  assumes "usable (clean b)"
    and "\<And>b'. (n, b') \<in> set post \<Longrightarrow> \<not> usable (clean b')"
  shows "map_of (store_blocks (pre @ (n, b) # post) qs) n = Some (clean b)"
proof -
  have "map_of (store_blocks (pre @ (n, b) # post) qs) n
      = map_of (store_blocks post (AList.update n (clean b) (store_blocks pre qs))) n"
    using assms(1) by (simp add: store_blocks_append Let_def)
  also have "\<dots> = map_of (AList.update n (clean b) (store_blocks pre qs)) n"
    using assms(2) by (rule map_of_store_blocks_none)
  also have "\<dots> = Some (clean b)"
    by (simp add: update_conv')
  finally show ?thesis .
qed

lemma store_blocks_keys:
  "fst ` set (store_blocks ms qs) \<subseteq> fst ` set ms \<union> fst ` set qs"
proof (induction ms arbitrary: qs)
  case Nil
  then show ?case by simp
next
  case (Cons m ms)
  obtain name b where m: "m = (name, b)" by (cases m)
  show ?case
    using Cons.IH [of "AList.update name (clean b) qs"] Cons.IH [of qs] m
    by (auto simp: Let_def dom_update)
qed

lemma store_blocks_distinct:
  "distinct (map fst qs) \<Longrightarrow> distinct (map fst (store_blocks ms qs))"
  by (induction ms arbitrary: qs) (auto simp: Let_def distinct_update)

lemma store_blocks_values:
  "(n, q) \<in> set (store_blocks ms qs) \<Longrightarrow>
   (n, q) \<in> set qs \<or> (\<exists>b. (n, b) \<in> set ms \<and> q = clean b \<and> usable q)"
proof (induction ms arbitrary: qs)
  case Nil
  then show ?case by simp
next
  case (Cons m ms)
  obtain name b where m: "m = (name, b)" by (cases m)
  show ?case
  proof (cases "usable (clean b)")
    case True
    with Cons.prems m have "(n, q) \<in> set (store_blocks ms (AList.update name (clean b) qs))"
      by (simp add: Let_def)
    then have "(n, q) \<in> set (AList.update name (clean b) qs)
        \<or> (\<exists>b. (n, b) \<in> set ms \<and> q = clean b \<and> usable q)"
      by (rule Cons.IH)
    moreover have "(n, q) \<in> set (AList.update name (clean b) qs) \<Longrightarrow>
        (n, q) \<in> set qs \<or> (n = name \<and> q = clean b)"
      by (induction qs) (auto split: if_splits)
    ultimately show ?thesis using m True by auto
  next
    case False
    with Cons.prems m have "(n, q) \<in> set (store_blocks ms qs)"
      by (simp add: Let_def)
    then show ?thesis using Cons.IH by fastforce
  qed
qed

text \<open>
  The loop on the store changes the dictionary at its address as \<^const>\<open>store_blocks\<close>
  says, and nothing else.
\<close>

lemma store_blocks_at_eq:
  "ref < length h \<Longrightarrow> store_blocks_at ref ms h = h[ref := store_blocks ms (h ! ref)]"
proof (induction ms arbitrary: h)
  case Nil
  then show ?case by simp
next
  case (Cons m ms)
  obtain name b where m: "m = (name, b)" by (cases m)
  show ?case
    using Cons.prems Cons.IH [of "h[ref := AList.update name (clean b) (h ! ref)]"] Cons.IH [of h] m
    by (simp add: Let_def)
qed

lemma load_queries_at_eq:
  "load_queries_at fs sql_file h =
     (case load_queries fs sql_file of
        Inl e \<Rightarrow> (Inl e, h)
      | Inr queries \<Rightarrow> (Inr (length h), h @ [queries]))"
  by (simp add: load_queries_at_def load_queries_def parse_queries_def read_text_def
      store_blocks_at_eq Let_def split: option.splits)

section \<open>The matches of the pattern\<close>

lemma match_here_name:
  "match_here s = Some (name, body, rest) \<Longrightarrow> name \<noteq> [] \<and> (\<forall>c \<in> set name. is_word c)"
  by (auto simp: match_here_def Let_def split: if_splits option.splits prod.splits dest: set_takeWhileD)

lemma findall_names:
  "(name, body) \<in> set (findall s) \<Longrightarrow> name \<noteq> [] \<and> (\<forall>c \<in> set name. is_word c)"
proof (induction s rule: findall.induct)
  case 1
  then show ?case by simp
next
  case (2 c cs)
  show ?case
  proof (cases "match_here (c # cs)")
    case None
    with 2 show ?thesis by simp
  next
    case (Some m)
    obtain n b r where m: "m = (n, b, r)" by (cases m)
    from 2(3) Some m have "(name, body) = (n, b) \<or> (name, body) \<in> set (findall r)" by simp
    then show ?thesis
    proof
      assume "(name, body) = (n, b)"
      then show ?thesis using match_here_name Some m by blast
    next
      assume "(name, body) \<in> set (findall r)"
      then show ?thesis using 2(2) Some m by simp
    qed
  qed
qed

lemma findall_skip:
  "\<forall>i < length pre. match_here (drop i (pre @ s)) = None \<Longrightarrow> findall (pre @ s) = findall s"
proof (induction pre)
  case Nil
  then show ?case by simp
next
  case (Cons c pre)
  from Cons.prems have "match_here (drop 0 ((c # pre) @ s)) = None" by blast
  then have here: "match_here (c # pre @ s) = None" by simp
  have "\<forall>i < length pre. match_here (drop i (pre @ s)) = None"
  proof (intro allI impI)
    fix i assume "i < length pre"
    then have "Suc i < length (c # pre)" by simp
    with Cons.prems have "match_here (drop (Suc i) ((c # pre) @ s)) = None" by blast
    then show "match_here (drop i (pre @ s)) = None" by simp
  qed
  with Cons.IH have "findall (pre @ s) = findall s" .
  with here show ?case by simp
qed

lemma match_here_Nil: "match_here [] = None"
  by (simp add: match_here_def)

lemma findall_match:
  "match_here s = Some (name, body, rest) \<Longrightarrow> findall s = (name, body) # findall rest"
  by (cases s) (simp_all add: match_here_Nil)

lemma lazy_body_append: "lazy_body t = (b, r) \<Longrightarrow> t = b @ r"
  by (induction t arbitrary: b r) (auto split: if_splits prod.splits)

lemma lazy_body_lookahead: "lazy_body t = (b, r) \<Longrightarrow> lookahead r"
  by (induction t arbitrary: b r) (auto simp: lookahead_def split: if_splits prod.splits)

lemma lazy_body_first:
  "lazy_body t = (b, r) \<Longrightarrow> k < length b \<Longrightarrow> \<not> lookahead (drop k t)"
proof (induction t arbitrary: b r k)
  case Nil
  then show ?case by simp
next
  case (Cons c cs)
  show ?case
  proof (cases "lookahead (c # cs)")
    case True
    with Cons.prems show ?thesis by simp
  next
    case False
    obtain b' where b': "lazy_body cs = (b', r)" "b = c # b'"
      using Cons.prems(1) False by (auto split: prod.splits)
    show ?thesis
    proof (cases k)
      case 0
      with False show ?thesis by simp
    next
      case (Suc j)
      with Cons.prems(2) b' have "j < length b'" by simp
      with Cons.IH b' have "\<not> lookahead (drop j cs)" by blast
      with Suc show ?thesis by simp
    qed
  qed
qed

lemma after_last_newline_split:
  "newline \<in> set ws \<Longrightarrow>
   \<exists>u. ws = u @ after_last_newline ws \<and> u \<noteq> [] \<and> last u = newline"
proof (induction ws)
  case Nil
  then show ?case by simp
next
  case (Cons c cs)
  show ?case
  proof (cases "newline \<in> set cs")
    case True
    with Cons.IH obtain u where "cs = u @ after_last_newline cs" "u \<noteq> []" "last u = newline"
      by blast
    then have "c # cs = (c # u) @ after_last_newline (c # cs) \<and> c # u \<noteq> [] \<and> last (c # u) = newline"
      using True by simp
    then show ?thesis by blast
  next
    case False
    with Cons.prems have "c = newline" by simp
    with False have "c # cs = [c] @ after_last_newline (c # cs) \<and> [c] \<noteq> [] \<and> last [c] = newline"
      by simp
    then show ?thesis by blast
  qed
qed

lemma spaces_newline_split:
  assumes "spaces_newline r = Some t"
  shows "\<exists>ws. r = ws @ t \<and> (\<forall>c \<in> set ws. is_space c) \<and> ws \<noteq> [] \<and> last ws = newline"
proof -
  let ?run = "takeWhile is_space r"
  from assms have nl: "newline \<in> set ?run"
    and t: "t = after_last_newline ?run @ dropWhile is_space r"
    by (auto simp: spaces_newline_def Let_def split: if_splits)
  from nl obtain u where u: "?run = u @ after_last_newline ?run" "u \<noteq> []" "last u = newline"
    using after_last_newline_split by blast
  have "r = ?run @ dropWhile is_space r" by simp
  then have "r = (u @ after_last_newline ?run) @ dropWhile is_space r"
    using u(1) by simp
  then have "r = u @ t" using t by simp
  moreover have "\<forall>c \<in> set u. is_space c"
  proof
    fix c assume "c \<in> set u"
    then have "c \<in> set ?run" using u(1) by (metis Un_iff set_append)
    then show "is_space c" by (rule set_takeWhileD [THEN conjunct2])
  qed
  ultimately show ?thesis using u(2,3) by blast
qed

lemma match_here_split:
  assumes "match_here s = Some (name, body, rest)"
  shows "\<exists>ws. s = ''-- Query: '' @ name @ ws @ body @ rest
           \<and> name \<noteq> [] \<and> (\<forall>c \<in> set name. is_word c)
           \<and> (\<forall>c \<in> set ws. is_space c) \<and> ws \<noteq> [] \<and> last ws = newline"
proof -
  from assms have p: "prefix ''-- Query: '' s"
    by (auto simp: match_here_def split: if_splits)
  let ?r = "drop 10 s"
  from p have s: "s = ''-- Query: '' @ ?r"
    by (auto simp: prefix_def)
  from assms p obtain t where
    n: "name = takeWhile is_word ?r" "name \<noteq> []" and
    t: "spaces_newline (dropWhile is_word ?r) = Some t" and
    b: "lazy_body t = (body, rest)"
    by (auto simp: match_here_def Let_def split: if_splits option.splits prod.splits)
  from t obtain ws where ws: "dropWhile is_word ?r = ws @ t" "\<forall>c \<in> set ws. is_space c"
    "ws \<noteq> []" "last ws = newline"
    using spaces_newline_split by blast
  have "?r = name @ dropWhile is_word ?r" using n(1) by simp
  then have "?r = name @ ws @ body @ rest"
    using ws(1) lazy_body_append [OF b] by simp
  with s have "s = ''-- Query: '' @ name @ ws @ body @ rest" by metis
  moreover have "\<forall>c \<in> set name. is_word c"
    using n(1) by (auto dest: set_takeWhileD)
  ultimately show ?thesis using n(2) ws(2,3,4) by blast
qed

lemma match_here_body:
  assumes "match_here s = Some (name, body, rest)"
  shows "lookahead rest \<and> (\<forall>k < length body. \<not> lookahead (drop k (body @ rest)))"
proof -
  from assms obtain t where b: "lazy_body t = (body, rest)"
    by (auto simp: match_here_def Let_def split: if_splits option.splits prod.splits)
  then show ?thesis
    using lazy_body_lookahead [OF b] lazy_body_first [OF b] lazy_body_append [OF b] by simp
qed

lemma after_last_newline_no_newline: "newline \<notin> set (after_last_newline ws)"
  by (induction ws) auto

lemma after_last_newline_subset: "set (after_last_newline ws) \<subseteq> set ws"
  by (induction ws) auto

lemma after_last_newline_append:
  "ws \<noteq> [] \<Longrightarrow> last ws = newline \<Longrightarrow> newline \<notin> set tw \<Longrightarrow> after_last_newline (ws @ tw) = tw"
proof (induction ws)
  case Nil
  then show ?case by simp
next
  case (Cons c cs)
  show ?case
  proof (cases "cs = []")
    case True
    with Cons.prems show ?thesis by simp
  next
    case False
    with Cons.prems have "last cs = newline" by simp
    with False have "newline \<in> set cs" using last_in_set by metis
    moreover have "after_last_newline (cs @ tw) = tw"
      using Cons.IH False \<open>last cs = newline\<close> Cons.prems(3) by blast
    ultimately show ?thesis by simp
  qed
qed

lemma takeWhile_dropWhile_Nil: "takeWhile P (dropWhile P xs) = []"
  by (induction xs) auto

lemma spaces_newline_last:
  assumes "spaces_newline r = Some t"
  shows "newline \<notin> set (takeWhile is_space t)"
proof -
  let ?run = "takeWhile is_space r"
  from assms have t: "t = after_last_newline ?run @ dropWhile is_space r"
    by (auto simp: spaces_newline_def Let_def split: if_splits)
  have "\<forall>c \<in> set (after_last_newline ?run). is_space c"
    using after_last_newline_subset [of ?run] by (auto dest: set_takeWhileD)
  then have "takeWhile is_space t
             = after_last_newline ?run @ takeWhile is_space (dropWhile is_space r)"
    using t by (simp add: takeWhile_append2)
  moreover have "takeWhile is_space (dropWhile is_space r) = []"
    by (rule takeWhile_dropWhile_Nil)
  ultimately show ?thesis
    by (simp add: after_last_newline_no_newline)
qed

lemma spaces_newline_append:
  assumes "ws \<noteq> []" "\<forall>c \<in> set ws. is_space c" "last ws = newline"
    and "newline \<notin> set (takeWhile is_space t)"
  shows "spaces_newline (ws @ t) = Some t"
proof -
  have run: "takeWhile is_space (ws @ t) = ws @ takeWhile is_space t"
    using assms(2) by (simp add: takeWhile_append2)
  have rest: "dropWhile is_space (ws @ t) = dropWhile is_space t"
    using assms(2) by (simp add: dropWhile_append2)
  have "newline \<in> set ws"
    using assms(1,3) last_in_set by metis
  moreover have "after_last_newline (ws @ takeWhile is_space t) = takeWhile is_space t"
    using assms(1,3,4) by (rule after_last_newline_append)
  ultimately show ?thesis
    by (simp add: spaces_newline_def run rest)
qed

lemma lazy_body_append_eq:
  "lookahead r \<Longrightarrow> \<forall>k < length b. \<not> lookahead (drop k (b @ r)) \<Longrightarrow> lazy_body (b @ r) = (b, r)"
proof (induction b)
  case Nil
  then show ?case by (cases r) simp_all
next
  case (Cons c b)
  from Cons.prems(2) have "\<not> lookahead (drop 0 ((c # b) @ r))" by blast
  then have here: "\<not> lookahead (c # b @ r)" by simp
  have "\<forall>k < length b. \<not> lookahead (drop k (b @ r))"
  proof (intro allI impI)
    fix k assume "k < length b"
    then have "Suc k < length (c # b)" by simp
    with Cons.prems(2) have "\<not> lookahead (drop (Suc k) ((c # b) @ r))" by blast
    then show "\<not> lookahead (drop k (b @ r))" by simp
  qed
  with Cons.IH Cons.prems(1) have "lazy_body (b @ r) = (b, r)" by blast
  with here show ?case by simp
qed

lemma match_here_shape:
  assumes "name \<noteq> []" "\<forall>c \<in> set name. is_word c"
    and "ws \<noteq> []" "\<forall>c \<in> set ws. is_space c" "last ws = newline"
    and "newline \<notin> set (takeWhile is_space (body @ rest))"
    and "lookahead rest" "\<forall>k < length body. \<not> lookahead (drop k (body @ rest))"
  shows "match_here (''-- Query: '' @ name @ ws @ body @ rest) = Some (name, body, rest)"
proof -
  let ?s = "''-- Query: '' @ name @ ws @ body @ rest"
  have p: "prefix ''-- Query: '' ?s" by (rule prefixI) simp
  have d: "drop 10 ?s = name @ ws @ body @ rest" by simp
  obtain x xs where ws: "ws = x # xs" using assms(3) by (cases ws) auto
  with assms(4) have "is_space x" by simp
  then have nx: "\<not> is_word x" using word_not_space by blast
  have tw: "takeWhile is_word (name @ ws @ body @ rest) = name"
    using assms(2) nx ws by (simp add: takeWhile_append2)
  have dw: "dropWhile is_word (name @ ws @ body @ rest) = ws @ body @ rest"
    using assms(2) nx ws by (simp add: dropWhile_append2)
  have sp: "spaces_newline (ws @ body @ rest) = Some (body @ rest)"
    using assms(3,4,5,6) by (rule spaces_newline_append)
  have lb: "lazy_body (body @ rest) = (body, rest)"
    using assms(7,8) by (rule lazy_body_append_eq)
  show ?thesis
    unfolding match_here_def using p assms(1) by (simp only: d tw dw sp lb Let_def if_True if_False option.case prod.case)
qed

section \<open>Lines and stripping\<close>

lemma split_nl_nonempty: "split_nl s \<noteq> []"
  by (induction s) (auto split: list.splits)

lemma split_nl_no_newline: "l \<in> set (split_nl s) \<Longrightarrow> newline \<notin> set l"
  by (induction s arbitrary: l) (auto split: list.splits if_splits)

lemma split_nl_line: "newline \<notin> set l \<Longrightarrow> split_nl l = [l]"
  by (induction l) auto

lemma split_nl_line_newline:
  "newline \<notin> set l \<Longrightarrow> split_nl (l @ newline # r) = l # split_nl r"
  by (induction l) auto

lemma split_join:
  "ls \<noteq> [] \<Longrightarrow> \<forall>l \<in> set ls. newline \<notin> set l \<Longrightarrow> split_nl (join_nl ls) = ls"
  by (induction ls rule: join_nl.induct) (auto simp: split_nl_line split_nl_line_newline)

lemma split_nl_lstrip:
  "split_nl s = l # ls \<Longrightarrow> \<exists>c \<in> set l. \<not> is_space c \<Longrightarrow>
   split_nl (lstrip s) = lstrip l # ls"
proof (induction s arbitrary: l)
  case Nil
  then show ?case by simp
next
  case (Cons c cs)
  show ?case
  proof (cases "c = newline")
    case True
    with Cons.prems show ?thesis by simp
  next
    case False
    obtain l' where l': "split_nl cs = l' # ls" "l = c # l'"
      using Cons.prems(1) False split_nl_nonempty [of cs]
      by (auto split: list.splits)
    show ?thesis
    proof (cases "is_space c")
      case True
      with Cons.prems(2) l' have "\<exists>c \<in> set l'. \<not> is_space c" by auto
      with Cons.IH l' have "split_nl (lstrip cs) = lstrip l' # ls" by blast
      with True l' show ?thesis by (simp add: lstrip_def)
    next
      case False
      with Cons.prems l' show ?thesis by (simp add: lstrip_def)
    qed
  qed
qed

lemma split_nl_snoc:
  "split_nl (s @ [c]) =
     (if c = newline then split_nl s @ [[]]
      else butlast (split_nl s) @ [last (split_nl s) @ [c]])"
  using split_nl_nonempty
  by (induction s) (auto split: list.splits)

lemma split_nl_rev: "split_nl (rev s) = rev (map rev (split_nl s))"
proof (induction s)
  case Nil
  then show ?case by simp
next
  case (Cons c cs)
  obtain l ls where L: "split_nl cs = l # ls"
    using split_nl_nonempty [of cs] by (cases "split_nl cs") auto
  show ?case
    using Cons L by (simp add: split_nl_snoc butlast_append)
qed

lemma split_nl_rstrip:
  assumes "\<exists>c \<in> set (last (split_nl s)). \<not> is_space c"
  shows "split_nl (rstrip s) = butlast (split_nl s) @ [rstrip (last (split_nl s))]"
proof -
  let ?L = "split_nl s"
  have L: "?L = butlast ?L @ [last ?L]"
    using split_nl_nonempty [of s] by simp
  have "split_nl (rev s) = rev (last ?L) # rev (map rev (butlast ?L))"
    by (subst split_nl_rev, subst L) simp
  moreover have "\<exists>c \<in> set (rev (last ?L)). \<not> is_space c"
    using assms by simp
  ultimately have "split_nl (lstrip (rev s)) = lstrip (rev (last ?L)) # rev (map rev (butlast ?L))"
    by (rule split_nl_lstrip)
  moreover have "rstrip s = rev (lstrip (rev s))"
    by (simp add: rstrip_def lstrip_def)
  ultimately show ?thesis
    by (simp add: split_nl_rev rstrip_def lstrip_def rev_map)
qed

lemma rstrip_Cons:
  "rstrip (c # cs) = (if \<forall>x \<in> set (c # cs). is_space x then [] else c # rstrip cs)"
  by (auto simp: rstrip_def dropWhile_append)

lemma lstrip_rstrip: "lstrip (rstrip s) = rstrip (lstrip s)"
proof (induction s)
  case Nil
  then show ?case by (simp add: lstrip_def rstrip_def)
next
  case (Cons c cs)
  show ?case
  proof (cases "is_space c")
    case True
    have "rstrip (c # cs) = (if \<forall>x \<in> set cs. is_space x then [] else c # rstrip cs)"
      using True by (simp add: rstrip_Cons)
    moreover have "rstrip (lstrip cs) = []" if "\<forall>x \<in> set cs. is_space x"
    proof -
      from that have "lstrip cs = []" by (simp add: lstrip_def)
      then show ?thesis by (simp add: rstrip_def)
    qed
    ultimately show ?thesis
      using True Cons by (auto simp: lstrip_def)
  next
    case False
    then show ?thesis by (simp add: lstrip_def rstrip_Cons)
  qed
qed

lemma rstrip_idem: "rstrip (rstrip s) = rstrip s"
  by (simp add: rstrip_def dropWhile_idem)

lemma lstrip_idem: "lstrip (lstrip s) = lstrip s"
  by (simp add: lstrip_def dropWhile_idem)

lemma strip_lstrip: "strip (lstrip s) = strip s"
  by (simp add: strip_def lstrip_idem)

lemma strip_rstrip: "strip (rstrip s) = strip s"
  by (simp add: strip_def lstrip_rstrip rstrip_idem)

lemma strip_idem: "strip (strip s) = strip s"
  by (simp add: strip_def lstrip_rstrip rstrip_idem lstrip_idem)

lemma set_dropWhile_keeps: "c \<in> set s \<Longrightarrow> \<not> P c \<Longrightarrow> c \<in> set (dropWhile P s)"
  by (induction s) auto

lemma strip_nonempty_iff: "strip s \<noteq> [] \<longleftrightarrow> (\<exists>c \<in> set s. \<not> is_space c)"
proof
  assume "strip s \<noteq> []"
  then show "\<exists>c \<in> set s. \<not> is_space c"
    by (auto simp: strip_def rstrip_def lstrip_def dest: set_dropWhileD)
next
  assume "\<exists>c \<in> set s. \<not> is_space c"
  then obtain c where "c \<in> set s" "\<not> is_space c" by blast
  then have "c \<in> set (dropWhile is_space s)" by (rule set_dropWhile_keeps)
  then have "c \<in> set (rev (dropWhile is_space s))" by simp
  then have "c \<in> set (dropWhile is_space (rev (dropWhile is_space s)))"
    using \<open>\<not> is_space c\<close> by (rule set_dropWhile_keeps)
  then have "dropWhile is_space (rev (dropWhile is_space s)) \<noteq> []"
    by (cases "dropWhile is_space (rev (dropWhile is_space s))") simp_all
  then show "strip s \<noteq> []"
    unfolding strip_def rstrip_def lstrip_def by (simp only: rev_is_Nil_conv not_False_eq_True)
qed

lemma keep_line_strip: "strip l' = strip l \<Longrightarrow> keep_line l' = keep_line l"
  by (simp add: keep_line_def)

lemma keep_line_no_space: "keep_line l \<Longrightarrow> \<exists>c \<in> set l. \<not> is_space c"
  by (simp add: keep_line_def strip_nonempty_iff)

lemma strip_join_lines:
  assumes "ls \<noteq> []" and "\<forall>l \<in> set ls. newline \<notin> set l \<and> keep_line l"
  shows "\<forall>l \<in> set (split_nl (strip (join_nl ls))). keep_line l"
proof -
  obtain l1 rest where ls: "ls = l1 # rest"
    using assms(1) by (cases ls) auto
  have sj: "split_nl (join_nl ls) = l1 # rest"
    using assms ls split_join [of ls] by simp
  have "\<exists>c \<in> set l1. \<not> is_space c"
    using assms(2) ls keep_line_no_space by simp
  with sj have sl: "split_nl (lstrip (join_nl ls)) = lstrip l1 # rest"
    by (rule split_nl_lstrip)
  let ?X = "lstrip l1 # rest"
  have keepX: "\<forall>l \<in> set ?X. keep_line l"
    using assms(2) ls keep_line_strip [OF strip_lstrip, of l1] by simp
  then have "\<exists>c \<in> set (last ?X). \<not> is_space c"
    using keep_line_no_space last_in_set [of ?X] by blast
  then have "split_nl (rstrip (lstrip (join_nl ls))) = butlast ?X @ [rstrip (last ?X)]"
    using split_nl_rstrip [of "lstrip (join_nl ls)"] sl by simp
  moreover have "keep_line (rstrip (last ?X))"
    using keepX keep_line_strip [OF strip_rstrip, of "last ?X"] last_in_set [of ?X] by blast
  moreover have "\<forall>l \<in> set (butlast ?X). keep_line l"
    using keepX in_set_butlastD by metis
  ultimately show ?thesis
    by (simp add: strip_def)
qed

lemma clean_lines:
  assumes "clean b \<noteq> []"
  shows "\<forall>l \<in> set (split_nl (clean b)). keep_line l"
proof -
  let ?ls = "filter keep_line (split_nl (strip b))"
  have "?ls \<noteq> []"
  proof
    assume "?ls = []"
    then have "clean b = []"
      by (simp add: clean_def strip_def lstrip_def rstrip_def)
    with assms show False by simp
  qed
  moreover have "\<forall>l \<in> set ?ls. newline \<notin> set l \<and> keep_line l"
    using split_nl_no_newline by auto
  ultimately show ?thesis
    unfolding clean_def by (rule strip_join_lines)
qed

lemma clean_stripped: "strip (clean b) = clean b"
  by (simp add: clean_def strip_idem)


lemma strip_hd_last:
  assumes "strip s \<noteq> []"
  shows "\<not> is_space (hd (strip s)) \<and> \<not> is_space (last (strip s))"
proof -
  have "strip s = lstrip (rstrip s)"
    by (simp add: strip_def lstrip_rstrip)
  with assms have "\<not> is_space (hd (strip s))"
    by (simp add: lstrip_def hd_dropWhile)
  moreover have "\<not> is_space (last (strip s))"
    using assms by (simp add: strip_def rstrip_def last_rev hd_dropWhile)
  ultimately show ?thesis by simp
qed

section \<open>The fixture and the runner\<close>

lemma db_next_Created:
  "db_next Created w =
     (Inr (Some (length w)), Suspended (length w),
      w @ [\<lparr>tables = [''products'' \<mapsto> \<lparr>columns = products_columns, rows = sample_rows\<rparr>],
             closed = False\<rparr>])"
  by (simp add: connect_def SCHEMA_def SAMPLE_DATA_def products_columns_def sample_rows_def
      is_open_def insert_row_def make_row_def fill_rowid_def key_of_def commit_def)

lemma run_test_missing:
  "fs sql_file = Some content \<Longrightarrow> map_of (parse_queries content) name = None \<Longrightarrow>
   fst (run_test fs sql_file (query_test name rest) w) = Inl (AssertionError (not_found_message name))"
  by (simp add: db_next_Created run_test_def load_queries_def read_text_def query_test_def
      get_query_def del: db_next.simps(1))

lemma message_names_block: "sublist name (not_found_message name)"
proof -
  have "not_found_message name = (''Query '' @ [CHR 0x27]) @ name @ ([CHR 0x27] @ '' not found or empty'')"
    by (simp add: not_found_message_def)
  then show ?thesis
    unfolding sublist_def by blast
qed

section \<open>Properties of the query-block extractor\<close>

text \<open>
  In what follows the blocks of a text are the matches that \<open>re.findall\<close> returns for
  it, in order: pairs of a name and a raw body. The cleaned text of a block is
  \<^const>\<open>clean\<close> of its body.
\<close>

subsection \<open>Placeholder and empty blocks\<close>

text \<open>
  Claim C1 as stated fails on a text with two blocks of one name: the first block
  \<open>A\<close> below has the cleaned text \<open>SELECT 1;\<close>, which is neither empty nor the
  placeholder, and yet the dictionary binds \<open>A\<close> to \<open>SELECT 2;\<close>.
\<close>

theorem duplicate_name_counterexample:
  "findall ''-- Query: A\<newline>SELECT 1;\<newline>-- Query: A\<newline>SELECT 2;\<newline>''
     = [(''A'', ''SELECT 1;\<newline>''), (''A'', ''SELECT 2;'')]
   \<and> clean ''SELECT 1;\<newline>'' = ''SELECT 1;''
   \<and> map_of (parse_queries ''-- Query: A\<newline>SELECT 1;\<newline>-- Query: A\<newline>SELECT 2;\<newline>'') ''A''
     = Some ''SELECT 2;''"
  by code_simp

text \<open>
  Claim C1, amended. For every text and every block of it whose name no other block
  of the text has: when the cleaned text of the block is empty or is the placeholder
  \<open>pass\<close>, the name of the block has no entry in the dictionary returned; otherwise
  the dictionary binds the name to the cleaned text of the block.
\<close>

theorem unique_block_entry:
  assumes "findall content = pre @ (name, body) # post"
    and "name \<notin> fst ` set pre" and "name \<notin> fst ` set post"
  shows "map_of (parse_queries content) name
         = (if usable (clean body) then Some (clean body) else None)"
proof (cases "usable (clean body)")
  case True
  have "\<not> usable (clean b')" if "(name, b') \<in> set post" for b'
    using that assms(3) by force
  with True have "map_of (store_blocks (pre @ (name, body) # post) []) name = Some (clean body)"
    by (rule map_of_store_blocks_last)
  with True assms(1) show ?thesis by (simp add: parse_queries_def)
next
  case False
  have "\<not> usable (clean b')" if "(name, b') \<in> set (pre @ (name, body) # post)" for b'
    using that assms(2,3) False by force
  then have "map_of (store_blocks (pre @ (name, body) # post) []) name = map_of [] name"
    by (rule map_of_store_blocks_none)
  with False assms(1) show ?thesis by (simp add: parse_queries_def)
qed

theorem unique_block_entry_witness:
  "map_of (parse_queries ''-- Query: A\<newline>SELECT 1;\<newline>-- Query: B\<newline>pass\<newline>'') ''A''
     = Some ''SELECT 1;''
   \<and> map_of (parse_queries ''-- Query: A\<newline>SELECT 1;\<newline>-- Query: B\<newline>pass\<newline>'') ''B''
     = None"
proof -
  let ?txt = "''-- Query: A\<newline>SELECT 1;\<newline>-- Query: B\<newline>pass\<newline>''"
  have f: "findall ?txt = [] @ (''A'', ''SELECT 1;\<newline>'') # [(''B'', ''pass'')]"
    by code_simp
  have g: "findall ?txt = [(''A'', ''SELECT 1;\<newline>'')] @ (''B'', ''pass'') # []"
    by code_simp
  have ca: "clean ''SELECT 1;\<newline>'' = ''SELECT 1;''" by code_simp
  have cb: "clean ''pass'' = ''pass''" by code_simp
  have "map_of (parse_queries ?txt) ''A''
        = (if usable (clean ''SELECT 1;\<newline>'') then Some (clean ''SELECT 1;\<newline>'') else None)"
    by (rule unique_block_entry [OF f]) simp_all
  moreover have "map_of (parse_queries ?txt) ''B''
        = (if usable (clean ''pass'') then Some (clean ''pass'') else None)"
    by (rule unique_block_entry [OF g]) simp_all
  ultimately show ?thesis
    by (simp add: ca cb usable_def)
qed

subsection \<open>Where a block starts and ends\<close>

text \<open>
  Claim C2 as stated fails: in the text below no line starts with the marker (the
  lines are listed), the only marker stands after \<open>SELECT 0; \<close> on the first line,
  and the extractor returns the block \<open>A\<close> that this marker starts.
\<close>

theorem marker_inside_line_counterexample:
  "split_nl ''SELECT 0; -- Query: A\<newline>SELECT 1;\<newline>''
     = [''SELECT 0; -- Query: A'', ''SELECT 1;'', '''']
   \<and> findall ''SELECT 0; -- Query: A\<newline>SELECT 1;\<newline>'' = [(''A'', ''SELECT 1;'')]
   \<and> parse_queries ''SELECT 0; -- Query: A\<newline>SELECT 1;\<newline>'' = [(''A'', ''SELECT 1;'')]"
  by code_simp

text \<open>
  Claim C2, amended. The extractor recognises a marker wherever the pattern matches,
  at the start of a line or not. The pattern matches at the start of \<open>s\<close>, with the
  name, the body and the rest given, exactly when \<open>s\<close> is the text \<open>-- Query: \<close>, the
  name (nonempty, of word characters), a nonempty run of whitespace that ends with
  the last newline of the whole run of whitespace after the name, the body and the
  rest, where the rest is the first place from the start of the body on at which the
  text \<open>-- Query:\<close> follows (anywhere in a line, with or without a name after it), or
  only a final newline, or nothing. When it matches at the start of \<open>s\<close> and at no
  position of a text \<open>pre\<close> before it, whatever \<open>pre\<close> is, the first block of
  \<open>pre @ s\<close> is the one of this match, and the scan goes on at the rest.
\<close>

theorem marker_anywhere:
  "(match_here s = Some (name, body, rest)
      \<longleftrightarrow> (\<exists>ws. s = ''-- Query: '' @ name @ ws @ body @ rest
             \<and> name \<noteq> [] \<and> list_all is_word name
             \<and> ws \<noteq> [] \<and> list_all is_space ws \<and> last ws = newline
             \<and> newline \<notin> set (takeWhile is_space (body @ rest))
             \<and> lookahead rest
             \<and> (\<forall>k < length body. \<not> lookahead (drop k (body @ rest)))))
   \<and> (match_here s = Some (name, body, rest)
        \<and> (\<forall>i < length pre. match_here (drop i (pre @ s)) = None)
      \<longrightarrow> findall (pre @ s) = (name, body) # findall rest)"
proof (intro conjI iffI impI)
  assume m: "match_here s = Some (name, body, rest)"
  from m obtain t where
    t: "spaces_newline (dropWhile is_word (drop 10 s)) = Some t" and
    b: "lazy_body t = (body, rest)"
    by (auto simp: match_here_def Let_def split: if_splits option.splits prod.splits)
  have "t = body @ rest" using b by (rule lazy_body_append)
  with t have "newline \<notin> set (takeWhile is_space (body @ rest))"
    using spaces_newline_last by blast
  moreover obtain ws where "s = ''-- Query: '' @ name @ ws @ body @ rest"
    "name \<noteq> []" "list_all is_word name" "ws \<noteq> []" "list_all is_space ws" "last ws = newline"
    using match_here_split [OF m] by (auto simp: list_all_iff)
  ultimately show "\<exists>ws. s = ''-- Query: '' @ name @ ws @ body @ rest
             \<and> name \<noteq> [] \<and> list_all is_word name
             \<and> ws \<noteq> [] \<and> list_all is_space ws \<and> last ws = newline
             \<and> newline \<notin> set (takeWhile is_space (body @ rest))
             \<and> lookahead rest
             \<and> (\<forall>k < length body. \<not> lookahead (drop k (body @ rest)))"
    using match_here_body [OF m] by blast
next
  assume "\<exists>ws. s = ''-- Query: '' @ name @ ws @ body @ rest
             \<and> name \<noteq> [] \<and> list_all is_word name
             \<and> ws \<noteq> [] \<and> list_all is_space ws \<and> last ws = newline
             \<and> newline \<notin> set (takeWhile is_space (body @ rest))
             \<and> lookahead rest
             \<and> (\<forall>k < length body. \<not> lookahead (drop k (body @ rest)))"
  then obtain ws where s: "s = ''-- Query: '' @ name @ ws @ body @ rest"
    and sh: "name \<noteq> []" "\<forall>c \<in> set name. is_word c" "ws \<noteq> []" "\<forall>c \<in> set ws. is_space c"
      "last ws = newline" "newline \<notin> set (takeWhile is_space (body @ rest))" "lookahead rest"
      "\<forall>k < length body. \<not> lookahead (drop k (body @ rest))"
    by (auto simp: list_all_iff)
  show "match_here s = Some (name, body, rest)"
    unfolding s using sh by (rule match_here_shape)
next
  assume a: "match_here s = Some (name, body, rest)
             \<and> (\<forall>i < length pre. match_here (drop i (pre @ s)) = None)"
  then have "findall (pre @ s) = findall s"
    using findall_skip by blast
  then show "findall (pre @ s) = (name, body) # findall rest"
    using findall_match a by simp
qed

theorem marker_anywhere_witness:
  "match_here ''-- Query: A\<newline>\<newline>X -- Query: B'' = Some (''A'', ''X '', ''-- Query: B'')
   \<and> findall (''SELECT 0; '' @ ''-- Query: A\<newline>\<newline>X -- Query: B'')
       = (''A'', ''X '') # findall ''-- Query: B''"
proof -
  let ?s = "''-- Query: A\<newline>\<newline>X -- Query: B''"
  have look: "\<forall>k < length ''X ''. \<not> lookahead (drop k (''X '' @ ''-- Query: B''))"
  proof (intro allI impI)
    fix k :: nat assume "k < length ''X ''"
    then have "k \<in> {0, 1}" by auto
    then show "\<not> lookahead (drop k (''X '' @ ''-- Query: B''))"
      by (elim insertE emptyE; simp only:; code_simp)
  qed
  have "?s = ''-- Query: '' @ ''A'' @ ''\<newline>\<newline>'' @ ''X '' @ ''-- Query: B''" by simp
  moreover have "list_all is_word ''A''" by code_simp
  moreover have "list_all is_space ''\<newline>\<newline>''" by code_simp
  moreover have "last ''\<newline>\<newline>'' = newline" by code_simp
  moreover have "newline \<notin> set (takeWhile is_space (''X '' @ ''-- Query: B''))" by code_simp
  moreover have "lookahead ''-- Query: B''" by code_simp
  ultimately have shape: "\<exists>ws. ?s = ''-- Query: '' @ ''A'' @ ws @ ''X '' @ ''-- Query: B''
             \<and> ''A'' \<noteq> [] \<and> list_all is_word ''A''
             \<and> ws \<noteq> [] \<and> list_all is_space ws \<and> last ws = newline
             \<and> newline \<notin> set (takeWhile is_space (''X '' @ ''-- Query: B''))
             \<and> lookahead ''-- Query: B''
             \<and> (\<forall>k < length ''X ''. \<not> lookahead (drop k (''X '' @ ''-- Query: B'')))"
    using look by (intro exI [of _ "''\<newline>\<newline>''"] conjI) simp_all
  have m: "match_here ?s = Some (''A'', ''X '', ''-- Query: B'')"
    using marker_anywhere [of ?s "''A''" "''X ''" "''-- Query: B''" "[]"] shape by blast
  have "match_here (drop i (''SELECT 0; '' @ ?s)) = None" if "i < 10" for i
  proof -
    from that have "i \<in> {0, 1, 2, 3, 4, 5, 6, 7, 8, 9}" by auto
    then show ?thesis
      by (elim insertE emptyE; simp only:; code_simp)
  qed
  then have n: "\<forall>i < length ''SELECT 0; ''. match_here (drop i (''SELECT 0; '' @ ?s)) = None"
    by simp
  show ?thesis
    using marker_anywhere [of ?s "''A''" "''X ''" "''-- Query: B''" "''SELECT 0; ''"] m n by blast
qed

subsection \<open>The example of the specification\<close>

text \<open>
  Claim C3. On the text with a block \<open>A\<close> of body \<open>SELECT 1;\<close> and a block \<open>B\<close> whose
  body is the comment line \<open>-- comment\<close> followed by \<open>SELECT 2;\<close>, the extractor returns
  exactly the dictionary with the two entries \<open>A: "SELECT 1;"\<close> and \<open>B: "SELECT 2;"\<close>,
  whether the text ends with a newline or not.
\<close>

theorem parse_queries_example:
  "parse_queries
     ''-- Query: A\<newline>SELECT 1;\<newline>-- Query: B\<newline>-- comment\<newline>SELECT 2;\<newline>''
     = [(''A'', ''SELECT 1;''), (''B'', ''SELECT 2;'')]
   \<and> parse_queries
     ''-- Query: A\<newline>SELECT 1;\<newline>-- Query: B\<newline>-- comment\<newline>SELECT 2;''
     = [(''A'', ''SELECT 1;''), (''B'', ''SELECT 2;'')]"
  by code_simp

subsection \<open>The values of the dictionary\<close>

text \<open>
  Claim C4. For every text and every entry of the dictionary the extractor returns:
  no line of the value is blank, no line of it is a comment (its stripped text does
  not start with \<open>--\<close>), and the value has no whitespace at its start or end. The
  lines of a value are the pieces between its newlines.
\<close>

theorem entries_clean:
  assumes "(name, query) \<in> set (parse_queries content)"
  shows "(\<forall>line \<in> set (split_nl query). strip line \<noteq> [] \<and> \<not> prefix ''--'' (strip line))
         \<and> strip query = query
         \<and> query \<noteq> [] \<and> \<not> is_space (hd query) \<and> \<not> is_space (last query)"
proof -
  from assms have "(name, query) \<in> set (store_blocks (findall content) [])"
    by (simp add: parse_queries_def)
  then obtain b where b: "query = clean b" "usable query"
    using store_blocks_values by fastforce
  then have ne: "clean b \<noteq> []" by (simp add: usable_def)
  then have "\<forall>l \<in> set (split_nl (clean b)). keep_line l"
    by (rule clean_lines)
  then have "\<forall>line \<in> set (split_nl query). strip line \<noteq> [] \<and> \<not> prefix ''--'' (strip line)"
    using b(1) by (simp add: keep_line_def Let_def)
  moreover have s: "strip query = query"
    using b(1) by (simp add: clean_stripped)
  moreover have "\<not> is_space (hd query) \<and> \<not> is_space (last query)"
    using strip_hd_last [of query] s ne b(1) by simp
  ultimately show ?thesis using ne b(1) by simp
qed

theorem entries_clean_witness:
  "(''B'', ''SELECT 2;'') \<in> set (parse_queries ''-- Query: B\<newline>-- comment\<newline>\<newline>  SELECT 2;  \<newline>'')
   \<and> strip ''SELECT 2;'' = ''SELECT 2;''
   \<and> list_all (\<lambda>line. strip line \<noteq> [] \<and> \<not> prefix ''--'' (strip line)) (split_nl ''SELECT 2;'')"
proof -
  have m: "(''B'', ''SELECT 2;'') \<in> set (parse_queries ''-- Query: B\<newline>-- comment\<newline>\<newline>  SELECT 2;  \<newline>'')"
    by code_simp
  show ?thesis
    using m entries_clean [OF m] by (simp only: list_all_iff) blast
qed

subsection \<open>Blocks of the same name\<close>

text \<open>
  Claim C5 as stated fails when the last block of a name is a placeholder: the last
  block \<open>A\<close> below has the cleaned text \<open>pass\<close>, and the dictionary binds \<open>A\<close> to
  the text of the earlier block.
\<close>

theorem placeholder_last_counterexample:
  "findall ''-- Query: A\<newline>SELECT 1;\<newline>-- Query: A\<newline>pass\<newline>''
     = [(''A'', ''SELECT 1;\<newline>''), (''A'', ''pass'')]
   \<and> clean ''pass'' = ''pass''
   \<and> map_of (parse_queries ''-- Query: A\<newline>SELECT 1;\<newline>-- Query: A\<newline>pass\<newline>'') ''A''
     = Some ''SELECT 1;''"
  by code_simp

text \<open>
  Claim C5, amended. For every text with several blocks of one name, the dictionary
  binds the name to the cleaned text of the last of these blocks whose cleaned text
  is neither empty nor the placeholder \<open>pass\<close>; the texts of the blocks of that name
  before it are discarded, and the blocks of that name after it leave no trace.
\<close>

theorem last_usable_block_wins:
  assumes "findall content = pre @ (name, body) # post"
    and "usable (clean body)"
    and "\<forall>b. (name, b) \<in> set post \<longrightarrow> \<not> usable (clean b)"
  shows "map_of (parse_queries content) name = Some (clean body)"
proof -
  have "\<not> usable (clean b')" if "(name, b') \<in> set post" for b'
    using that assms(3) by blast
  with assms(2) have "map_of (store_blocks (pre @ (name, body) # post) []) name = Some (clean body)"
    by (rule map_of_store_blocks_last)
  with assms(1) show ?thesis by (simp add: parse_queries_def)
qed

theorem last_usable_block_wins_witness:
  "map_of (parse_queries
     ''-- Query: A\<newline>SELECT 1;\<newline>-- Query: A\<newline>SELECT 2;\<newline>-- Query: A\<newline>pass\<newline>'') ''A''
   = Some ''SELECT 2;''"
proof -
  let ?txt = "''-- Query: A\<newline>SELECT 1;\<newline>-- Query: A\<newline>SELECT 2;\<newline>-- Query: A\<newline>pass\<newline>''"
  have f: "findall ?txt = [(''A'', ''SELECT 1;\<newline>'')] @ (''A'', ''SELECT 2;\<newline>'') # [(''A'', ''pass'')]"
    by code_simp
  have c: "clean ''SELECT 2;\<newline>'' = ''SELECT 2;''" by code_simp
  have u: "usable (clean ''SELECT 2;\<newline>'')" by code_simp
  have cp: "clean ''pass'' = ''pass''" by code_simp
  have p: "\<forall>b. (''A'', b) \<in> set [(''A'', ''pass'')] \<longrightarrow> \<not> usable (clean b)"
    by (simp add: cp usable_def)
  show ?thesis
    using last_usable_block_wins [OF f u p] c by simp
qed

subsection \<open>Determinism and totality\<close>

text \<open>
  Claim C6. The extraction is a pure function of the text of the query file. Take two
  runs that find the same text at the path (or both no file), in any two states of
  the store, in particular the second run in the store that the first has left. When
  there is no file, both raise the same exception and change nothing. Otherwise each
  returns a new dictionary, at an address that was free, and the two dictionaries
  have the same entries, those of \<^const>\<open>load_queries\<close> for that text; no dictionary
  that was in the store before a run is changed by it, so the result of the first
  run is still what it was after the second.
\<close>

theorem load_queries_pure:
  assumes "fs sql_file = fs' sql_file"
  shows "case load_queries fs sql_file of
           Inl e \<Rightarrow>
             load_queries_at fs sql_file h = (Inl e, h)
             \<and> load_queries_at fs' sql_file h' = (Inl e, h')
         | Inr queries \<Rightarrow>
             load_queries_at fs sql_file h = (Inr (length h), h @ [queries])
             \<and> load_queries_at fs' sql_file h' = (Inr (length h'), h' @ [queries])"
proof -
  have "load_queries fs' sql_file = load_queries fs sql_file"
    using assms by (simp add: load_queries_def read_text_def)
  then show ?thesis
    by (simp add: load_queries_at_eq split: sum.splits)
qed

theorem load_queries_pure_witness:
  "load_queries_at [''exercise.sql'' \<mapsto> ''-- Query: A\<newline>SELECT 1;\<newline>''] ''exercise.sql''
     [[(''old'', ''x'')]]
     = (Inr 1, [[(''old'', ''x'')], [(''A'', ''SELECT 1;'')]])
   \<and> load_queries_at
       [''exercise.sql'' \<mapsto> ''-- Query: A\<newline>SELECT 1;\<newline>'', ''other.sql'' \<mapsto> ''x'']
       ''exercise.sql'' [[(''old'', ''x'')], [(''A'', ''SELECT 1;'')]]
     = (Inr 2, [[(''old'', ''x'')], [(''A'', ''SELECT 1;'')], [(''A'', ''SELECT 1;'')]])"
proof -
  let ?fs = "[''exercise.sql'' \<mapsto> ''-- Query: A\<newline>SELECT 1;\<newline>'']"
  let ?fs' = "[''exercise.sql'' \<mapsto> ''-- Query: A\<newline>SELECT 1;\<newline>'', ''other.sql'' \<mapsto> ''x'']"
  have p: "parse_queries ''-- Query: A\<newline>SELECT 1;\<newline>'' = [(''A'', ''SELECT 1;'')]"
    by code_simp
  have lq: "load_queries ?fs ''exercise.sql'' = Inr [(''A'', ''SELECT 1;'')]"
    by (simp add: load_queries_def read_text_def p)
  have same: "?fs ''exercise.sql'' = ?fs' ''exercise.sql''"
    by simp
  show ?thesis
    using load_queries_pure
            [of ?fs "''exercise.sql''" ?fs' "[[(''old'', ''x'')]]"
                "[[(''old'', ''x'')], [(''A'', ''SELECT 1;'')]]", OF same]
    by (simp add: lq)
qed

text \<open>
  Claim C10. The parsing step is total. The scan is a terminating function of the
  text (the termination proof of \<^const>\<open>findall\<close>), and the model of the step has no
  branch that raises: whatever the text of the file, \<open>load_queries\<close> returns a
  dictionary. Its keys are distinct, and every key is a nonempty string of word
  characters.
\<close>

theorem parse_queries_total:
  assumes "fs sql_file = Some content"
  shows "load_queries fs sql_file = Inr (parse_queries content)
         \<and> distinct (map fst (parse_queries content))
         \<and> (\<forall>name \<in> fst ` set (parse_queries content). name \<noteq> [] \<and> list_all is_word name)"
proof -
  have "name \<noteq> [] \<and> list_all is_word name" if "name \<in> fst ` set (parse_queries content)" for name
  proof -
    from that have "name \<in> fst ` set (findall content)"
      using store_blocks_keys [of "findall content" "[]"] by (auto simp: parse_queries_def)
    then show ?thesis
      using findall_names by (fastforce simp: list_all_iff)
  qed
  moreover have "distinct (map fst (parse_queries content))"
    using store_blocks_distinct [of "[]"] by (simp add: parse_queries_def)
  ultimately show ?thesis
    using assms by (simp add: load_queries_def read_text_def)
qed

theorem parse_queries_total_witness:
  "load_queries [''exercise.sql'' \<mapsto> ''-- Query: a1\<newline>SELECT 1;\<newline>''] ''exercise.sql''
     = Inr (parse_queries ''-- Query: a1\<newline>SELECT 1;\<newline>'')
   \<and> parse_queries ''-- Query: a1\<newline>SELECT 1;\<newline>'' = [(''a1'', ''SELECT 1;'')]
   \<and> list_all is_word ''a1''"
proof -
  have e: "[''exercise.sql'' \<mapsto> ''-- Query: a1\<newline>SELECT 1;\<newline>''] ''exercise.sql''
           = Some ''-- Query: a1\<newline>SELECT 1;\<newline>''"
    by simp
  have p: "parse_queries ''-- Query: a1\<newline>SELECT 1;\<newline>'' = [(''a1'', ''SELECT 1;'')]"
    by code_simp
  show ?thesis
    using parse_queries_total
            [of "[''exercise.sql'' \<mapsto> ''-- Query: a1\<newline>SELECT 1;\<newline>'']"
                "''exercise.sql''" "''-- Query: a1\<newline>SELECT 1;\<newline>''", OF e] p
    by simp
qed

section \<open>Properties of the tests and of the fixture\<close>

text \<open>
  Claim C7. For every query file in which the block that a test asks for is missing
  or not implemented (every block of that name, if there is one, has an empty or
  placeholder cleaned text), the test run by pytest ends with an \<open>AssertionError\<close>
  whose message contains the name of the block, not with a lookup error. This holds
  for every name, so for each of the eight tests of the class.
\<close>

theorem missing_block_assertion:
  assumes "fs sql_file = Some content"
    and "\<forall>body. (name, body) \<in> set (findall content) \<longrightarrow> \<not> usable (clean body)"
  shows "fst (run_test fs sql_file (query_test name rest) w)
           = Inl (AssertionError (not_found_message name))
         \<and> sublist name (not_found_message name)"
proof -
  have "\<not> usable (clean b)" if "(name, b) \<in> set (findall content)" for b
    using that assms(2) by blast
  then have "map_of (store_blocks (findall content) []) name = map_of [] name"
    by (rule map_of_store_blocks_none)
  then have "map_of (parse_queries content) name = None"
    by (simp add: parse_queries_def)
  with assms(1) show ?thesis
    using run_test_missing message_names_block by blast
qed

theorem missing_block_assertion_witness:
  "fst (run_test
          [''exercise.sql'' \<mapsto>
             ''-- Query: select_all_columns\<newline>-- Write your query here\<newline>pass\<newline>'']
          ''exercise.sql'' (query_test ''select_all_columns'' (\<lambda>query db w. (Inr (), w))) [])
     = Inl (AssertionError (not_found_message ''select_all_columns''))"
proof -
  let ?txt = "''-- Query: select_all_columns\<newline>-- Write your query here\<newline>pass\<newline>''"
  have f: "findall ?txt = [(''select_all_columns'', ''-- Write your query here\<newline>pass'')]"
    by code_simp
  have c: "clean ''-- Write your query here\<newline>pass'' = ''pass''"
    by code_simp
  have h: "\<forall>body. (''select_all_columns'', body) \<in> set (findall ?txt) \<longrightarrow> \<not> usable (clean body)"
    unfolding f by (simp add: c usable_def)
  have e: "[''exercise.sql'' \<mapsto> ?txt] ''exercise.sql'' = Some ?txt"
    by simp
  show ?thesis
    using missing_block_assertion
            [of "[''exercise.sql'' \<mapsto> ?txt]" "''exercise.sql''" ?txt "''select_all_columns''",
             OF e h]
    by blast
qed

text \<open>
  Claim C8. Every invocation of the fixture, in whatever state the earlier tests left
  the process, yields a new connection (no connection made before is touched) to a
  database with the same content: the table \<open>products\<close> with the rows of
  \<open>SAMPLE_DATA\<close>. Selecting all rows of \<open>products\<close> from it returns these rows, and
  they are eight.
\<close>

theorem db_fixture_seeded:
  "case db_next Created w of
     (r, g, w') \<Rightarrow>
       r = Inr (Some (length w)) \<and> take (length w) w' = w \<and> length w' = Suc (length w)
       \<and> w' ! length w =
           \<lparr>tables = [''products'' \<mapsto> \<lparr>columns = products_columns, rows = sample_rows\<rparr>],
            closed = False\<rparr>
       \<and> select_all (length w) ''products'' w' = Inr sample_rows
       \<and> length sample_rows = 8"
proof -
  have "length sample_rows = 8"
    by (simp add: sample_rows_def)
  then show ?thesis
    by (simp add: db_next_Created select_all_def is_open_def del: db_next.simps(1))
qed

theorem db_fixture_seeded_witness:
  "map_sum id length (select_all 0 ''products'' (snd (snd (db_next Created [])))) = Inr 8"
  using db_fixture_seeded [of "[]"] by (simp split: prod.splits)

text \<open>
  Claim C9. For every test that gets the fixture, whatever the test does and however
  it ends (with an assertion failure too), and whether the fixture \<open>queries\<close> could
  load the file or not, the connection that \<open>db\<close> yielded is not open once pytest
  has run the test.
\<close>

theorem db_fixture_closes:
  "fst (db_next Created w) = Inr (Some (length w))
   \<and> \<not> is_open (length w) (snd (run_test fs sql_file t w))"
  by (simp add: db_next_Created run_test_def is_open_def close_def
      split: sum.splits prod.splits del: db_next.simps(1))

theorem db_fixture_closes_witness:
  "\<not> is_open 0
       (snd (run_test [''exercise.sql'' \<mapsto> ''''] ''exercise.sql''
               (\<lambda>db queries w. (Inl (AssertionError ''Expected 8 rows, got 0''), w)) []))"
  using db_fixture_closes
          [of "[]" "[''exercise.sql'' \<mapsto> '''']" "''exercise.sql''"
              "\<lambda>db queries w. (Inl (AssertionError ''Expected 8 rows, got 0''), w)"]
  by simp

end
